theory Spec2Isabelle
  imports Main "HOL-Library.Word"
begin

section \<open>JavaScript values used by \<^verbatim>\<open>src/src/index.ts\<close>\<close>

text \<open>
  A JavaScript string is a sequence of 16-bit code units. \<open>ch\<close> and \<open>str\<close> embed ASCII
  characters and literals, so that the string constants of the source can be written as they
  appear there.
\<close>

type_synonym jschar = "16 word"
type_synonym jsstring = "jschar list"

definition ch :: "char \<Rightarrow> jschar" where
  "ch c = of_nat (of_char c)"

definition str :: "string \<Rightarrow> jsstring" where
  "str s = map ch s"

text \<open>
  The values \<^verbatim>\<open>JSON.parse\<close> can return. A number is kept as the exact decimal value
  \<open>m * 10 ^ e\<close> of its literal (the program holds the double nearest to it). An object keeps
  its members in textual order; a later duplicate key overrides an earlier one on lookup.
\<close>

datatype jvalue =
    JNull
  | JBool bool
  | JNumber int int
  | JString jsstring
  | JArray "jvalue list"
  | JObject "(jsstring \<times> jvalue) list"

text \<open>
  What a \<^verbatim>\<open>throw\<close> can carry to the \<^verbatim>\<open>catch\<close> of the handler: the
  built-in errors raised by \<^verbatim>\<open>JSON.parse\<close> (SyntaxError) and by a property read on
  \<^verbatim>\<open>null\<close> or a call of a non-function (TypeError), both with an engine-defined message;
  any other \<^verbatim>\<open>Error\<close> instance with its message; a thrown value that is not an
  \<^verbatim>\<open>Error\<close>. A RangeError is what \<^verbatim>\<open>JSON.stringify\<close> throws when the nesting
  of a value exhausts the stack. The parser below reports the same error if its recursion
  budget runs out, which it never does (lemma \<open>JSON_parse_not_RangeError\<close>).
\<close>

datatype exn = SyntaxError | TypeError | RangeError | Error jsstring | NonError

section \<open>The regular expression \<^verbatim>\<open>/\{[\s\S]*\}/\<close> (line 102)\<close>

text \<open>
  \<^verbatim>\<open>text.match(re)\<close> with a regular expression without the \<^verbatim>\<open>g\<close> and \<^verbatim>\<open>y\<close> flags
  runs the backtracking matcher at the start indices 0, 1, 2, ... and returns the first
  success. The pattern is the character \<^verbatim>\<open>{\<close>, a greedy star over the class
  \<^verbatim>\<open>[\s\S]\<close>, and the character \<^verbatim>\<open>}\<close>.
\<close>

definition lbrace :: jschar where
  "lbrace = ch CHR ''{''"

definition rbrace :: jschar where
  "rbrace = ch CHR ''}''"

definition is_white_space :: "jschar \<Rightarrow> bool" where
  "is_white_space c \<longleftrightarrow>
     c \<in> {0x09, 0x0A, 0x0B, 0x0C, 0x0D, 0x20, 0xA0, 0x1680, 0x2028, 0x2029,
          0x202F, 0x205F, 0x3000, 0xFEFF}
     \<or> (0x2000 \<le> c \<and> c \<le> 0x200A)"

definition class_sS :: "jschar \<Rightarrow> bool" where
  "class_sS c \<longleftrightarrow> is_white_space c \<or> \<not> is_white_space c"

text \<open>The pattern \<^verbatim>\<open>\}\<close> at the head of the remaining input: the code units consumed.\<close>

fun close_brace :: "jsstring \<Rightarrow> nat option" where
  "close_brace [] = None"
| "close_brace (c # cs) = (if c = rbrace then Some 1 else None)"

text \<open>
  The pattern \<^verbatim>\<open>[\s\S]*\}\<close>: the greedy star first takes one more code unit and tries the
  rest of the pattern after it; only when that fails does it try the closing brace here.
\<close>

fun star_close :: "jsstring \<Rightarrow> nat option" where
  "star_close [] = close_brace []"
| "star_close (c # cs) =
     (if class_sS c
      then (case star_close cs of
              Some n \<Rightarrow> Some (Suc n)
            | None \<Rightarrow> close_brace (c # cs))
      else close_brace (c # cs))"

text \<open>The whole pattern at the head of the remaining input.\<close>

fun match_here :: "jsstring \<Rightarrow> nat option" where
  "match_here [] = None"
| "match_here (c # cs) = (if c = lbrace then map_option Suc (star_close cs) else None)"

text \<open>
  The search over start indices; the result is the matched substring, \<^verbatim>\<open>jsonMatch[0]\<close>,
  or \<open>None\<close> for \<^verbatim>\<open>null\<close>.
\<close>

fun regexp_exec :: "jsstring \<Rightarrow> jsstring option" where
  "regexp_exec [] = None"
| "regexp_exec (c # cs) =
     (case match_here (c # cs) of
        Some n \<Rightarrow> Some (take n (c # cs))
      | None \<Rightarrow> regexp_exec cs)"

subsection \<open>The span as the specification words it\<close>

text \<open>
  The specification describes the match as the span from the first \<^verbatim>\<open>{\<close> of the text to
  the last \<^verbatim>\<open>}\<close> of the text. \<open>brace_span\<close> is that description, by positions.
\<close>

definition first_index :: "jschar \<Rightarrow> jsstring \<Rightarrow> nat option" where
  "first_index c t =
     (if c \<in> set t then Some (length (takeWhile (\<lambda>x. x \<noteq> c) t)) else None)"

definition last_index :: "jschar \<Rightarrow> jsstring \<Rightarrow> nat option" where
  "last_index c t =
     (if c \<in> set t
      then Some (length t - 1 - length (takeWhile (\<lambda>x. x \<noteq> c) (rev t)))
      else None)"

definition brace_span :: "jsstring \<Rightarrow> jsstring option" where
  "brace_span t =
     (case (first_index lbrace t, last_index rbrace t) of
        (Some i, Some j) \<Rightarrow> if i < j then Some (take (j + 1 - i) (drop i t)) else None
      | _ \<Rightarrow> None)"

section \<open>\<^verbatim>\<open>JSON.parse\<close> (line 108)\<close>

text \<open>
  A recursive-descent parser for the JSON grammar of ECMA-404, which is what
  \<^verbatim>\<open>JSON.parse\<close> accepts. The result of a sub-parser is the value and the input left.
\<close>

datatype 'a parse = Parsed 'a jsstring | Failed | Exhausted

definition is_json_ws :: "jschar \<Rightarrow> bool" where
  "is_json_ws c \<longleftrightarrow> c = 0x09 \<or> c = 0x0A \<or> c = 0x0D \<or> c = 0x20"

definition skip_ws :: "jsstring \<Rightarrow> jsstring" where
  "skip_ws s = dropWhile is_json_ws s"

definition is_digit :: "jschar \<Rightarrow> bool" where
  "is_digit c \<longleftrightarrow> ch CHR ''0'' \<le> c \<and> c \<le> ch CHR ''9''"

definition digit_val :: "jschar \<Rightarrow> nat" where
  "digit_val c = unat c - 48"

definition digits_val :: "jsstring \<Rightarrow> nat" where
  "digits_val ds = foldl (\<lambda>a c. 10 * a + digit_val c) 0 ds"

definition hex_val :: "jschar \<Rightarrow> nat option" where
  "hex_val c =
     (if ch CHR ''0'' \<le> c \<and> c \<le> ch CHR ''9'' then Some (unat c - 48)
      else if ch CHR ''a'' \<le> c \<and> c \<le> ch CHR ''f'' then Some (unat c - 87)
      else if ch CHR ''A'' \<le> c \<and> c \<le> ch CHR ''F'' then Some (unat c - 55)
      else None)"

definition hex4 :: "jschar \<Rightarrow> jschar \<Rightarrow> jschar \<Rightarrow> jschar \<Rightarrow> jschar option" where
  "hex4 a b c d =
     (case (hex_val a, hex_val b, hex_val c, hex_val d) of
        (Some w, Some x, Some y, Some z) \<Rightarrow> Some (of_nat (((w * 16 + x) * 16 + y) * 16 + z))
      | _ \<Rightarrow> None)"

definition escape :: "jschar \<Rightarrow> jschar option" where
  "escape e =
     (if e = ch CHR ''\"'' then Some (ch CHR ''\"'')
      else if e = 0x5C then Some 0x5C
      else if e = ch CHR ''/'' then Some (ch CHR ''/'')
      else if e = ch CHR ''b'' then Some 0x08
      else if e = ch CHR ''f'' then Some 0x0C
      else if e = ch CHR ''n'' then Some 0x0A
      else if e = ch CHR ''r'' then Some 0x0D
      else if e = ch CHR ''t'' then Some 0x09
      else None)"

text \<open>
  The characters of a string after its opening quote, up to and including the closing
  quote: the decoded string and the input left.
\<close>

fun parse_string :: "jsstring \<Rightarrow> (jsstring \<times> jsstring) option" where
  "parse_string [] = None"
| "parse_string (c # cs) =
     (if c = ch CHR ''\"'' then Some ([], cs)
      else if c = 0x5C then
        (case cs of
           [] \<Rightarrow> None
         | e # r \<Rightarrow>
             if e = ch CHR ''u'' then
               (case r of
                  h1 # h2 # h3 # h4 # r' \<Rightarrow>
                    (case hex4 h1 h2 h3 h4 of
                       None \<Rightarrow> None
                     | Some u \<Rightarrow> map_option (\<lambda>(s, rest). (u # s, rest)) (parse_string r'))
                | _ \<Rightarrow> None)
             else
               (case escape e of
                  None \<Rightarrow> None
                | Some x \<Rightarrow> map_option (\<lambda>(s, rest). (x # s, rest)) (parse_string r)))
      else if c < 0x20 then None
      else map_option (\<lambda>(s, rest). (c # s, rest)) (parse_string cs))"

text \<open>
  A number: an optional minus, an integer part (a single \<^verbatim>\<open>0\<close>, or digits not starting
  with \<^verbatim>\<open>0\<close>), an optional fraction and an optional exponent.
\<close>

definition opt_minus :: "jsstring \<Rightarrow> bool \<times> jsstring" where
  "opt_minus s =
     (case s of
        [] \<Rightarrow> (False, [])
      | c # cs \<Rightarrow> if c = ch CHR ''-'' then (True, cs) else (False, s))"

definition int_part :: "jsstring \<Rightarrow> jsstring \<times> jsstring" where
  "int_part s =
     (case s of
        [] \<Rightarrow> ([], [])
      | c # cs \<Rightarrow>
          if c = ch CHR ''0'' then ([c], cs)
          else (takeWhile is_digit s, dropWhile is_digit s))"

text \<open>The digits of the fraction, none when there is no point; \<open>None\<close> for a point without digits.\<close>

definition frac_part :: "jsstring \<Rightarrow> (jsstring \<times> jsstring) option" where
  "frac_part s =
     (case s of
        [] \<Rightarrow> Some ([], [])
      | c # cs \<Rightarrow>
          if c = ch CHR ''.'' then
            (if takeWhile is_digit cs = [] then None
             else Some (takeWhile is_digit cs, dropWhile is_digit cs))
          else Some ([], s))"

definition opt_sign :: "jsstring \<Rightarrow> bool \<times> jsstring" where
  "opt_sign s =
     (case s of
        [] \<Rightarrow> (False, [])
      | c # cs \<Rightarrow>
          if c = ch CHR ''-'' then (True, cs)
          else if c = ch CHR ''+'' then (False, cs)
          else (False, s))"

text \<open>The exponent, 0 when there is none; \<open>None\<close> for an exponent mark without digits.\<close>

definition exp_part :: "jsstring \<Rightarrow> (int \<times> jsstring) option" where
  "exp_part s =
     (case s of
        [] \<Rightarrow> Some (0, [])
      | c # cs \<Rightarrow>
          if c = ch CHR ''e'' \<or> c = ch CHR ''E'' then
            (case opt_sign cs of
               (neg, ds) \<Rightarrow>
                 if takeWhile is_digit ds = [] then None
                 else Some (if neg then - int (digits_val (takeWhile is_digit ds))
                            else int (digits_val (takeWhile is_digit ds)),
                            dropWhile is_digit ds))
          else Some (0, s))"

definition parse_number :: "jsstring \<Rightarrow> jvalue parse" where
  "parse_number s =
     (case opt_minus s of
        (neg, s1) \<Rightarrow>
          (case int_part s1 of
             (ip, s2) \<Rightarrow>
               if ip = [] then Failed
               else
                 (case frac_part s2 of
                    None \<Rightarrow> Failed
                  | Some (fp, s3) \<Rightarrow>
                      (case exp_part s3 of
                         None \<Rightarrow> Failed
                       | Some (ex, s4) \<Rightarrow>
                           Parsed (JNumber
                                     (if neg then - int (digits_val (ip @ fp))
                                      else int (digits_val (ip @ fp)))
                                     (ex - int (length fp)))
                             s4))))"

definition parse_literal :: "jsstring \<Rightarrow> jvalue parse" where
  "parse_literal s =
     (if take 4 s = str ''true'' then Parsed (JBool True) (drop 4 s)
      else if take 5 s = str ''false'' then Parsed (JBool False) (drop 5 s)
      else if take 4 s = str ''null'' then Parsed JNull (drop 4 s)
      else Failed)"

fun map_parse :: "('a \<Rightarrow> 'b) \<Rightarrow> 'a parse \<Rightarrow> 'b parse" where
  "map_parse f (Parsed x rest) = Parsed (f x) rest"
| "map_parse f Failed = Failed"
| "map_parse f Exhausted = Exhausted"

text \<open>
  Values, the elements of an array after its \<^verbatim>\<open>[\<close>, and the members of an object after
  its \<^verbatim>\<open>{\<close>. The first argument bounds the depth of the recursion, so that the functions
  are total; \<open>JSON_parse\<close> gives enough of it for any input.
\<close>

fun parse_value :: "nat \<Rightarrow> jsstring \<Rightarrow> jvalue parse"
  and parse_elements :: "nat \<Rightarrow> jsstring \<Rightarrow> jvalue list parse"
  and parse_members :: "nat \<Rightarrow> jsstring \<Rightarrow> (jsstring \<times> jvalue) list parse"
where
  "parse_value 0 s = Exhausted"
| "parse_value (Suc n) s =
     (case skip_ws s of
        [] \<Rightarrow> Failed
      | c # cs \<Rightarrow>
          if c = lbrace then
            (case skip_ws cs of
               [] \<Rightarrow> Failed
             | d # ds \<Rightarrow>
                 if d = rbrace then Parsed (JObject []) ds
                 else map_parse JObject (parse_members n (d # ds)))
          else if c = ch CHR ''['' then
            (case skip_ws cs of
               [] \<Rightarrow> Failed
             | d # ds \<Rightarrow>
                 if d = ch CHR '']'' then Parsed (JArray []) ds
                 else map_parse JArray (parse_elements n (d # ds)))
          else if c = ch CHR ''\"'' then
            (case parse_string cs of
               None \<Rightarrow> Failed
             | Some (s', rest) \<Rightarrow> Parsed (JString s') rest)
          else if c = ch CHR ''-'' \<or> is_digit c then parse_number (c # cs)
          else parse_literal (c # cs))"
| "parse_elements 0 s = Exhausted"
| "parse_elements (Suc n) s =
     (case parse_value n s of
        Failed \<Rightarrow> Failed
      | Exhausted \<Rightarrow> Exhausted
      | Parsed v rest \<Rightarrow>
          (case skip_ws rest of
             [] \<Rightarrow> Failed
           | c # cs \<Rightarrow>
               if c = ch CHR '','' then map_parse (\<lambda>vs. v # vs) (parse_elements n cs)
               else if c = ch CHR '']'' then Parsed [v] cs
               else Failed))"
| "parse_members 0 s = Exhausted"
| "parse_members (Suc n) s =
     (case skip_ws s of
        [] \<Rightarrow> Failed
      | q # qs \<Rightarrow>
          if q \<noteq> ch CHR ''\"'' then Failed
          else
            (case parse_string qs of
               None \<Rightarrow> Failed
             | Some (k, rest) \<Rightarrow>
                 (case skip_ws rest of
                    [] \<Rightarrow> Failed
                  | d # ds \<Rightarrow>
                      if d \<noteq> ch CHR '':'' then Failed
                      else
                        (case parse_value n ds of
                           Failed \<Rightarrow> Failed
                         | Exhausted \<Rightarrow> Exhausted
                         | Parsed v rest' \<Rightarrow>
                             (case skip_ws rest' of
                                [] \<Rightarrow> Failed
                              | c # cs \<Rightarrow>
                                  if c = ch CHR '','' then
                                    map_parse (\<lambda>kvs. (k, v) # kvs) (parse_members n cs)
                                  else if c = rbrace then Parsed [(k, v)] cs
                                  else Failed)))))"

text \<open>
  \<^verbatim>\<open>JSON.parse(text)\<close>: one value, with nothing but white space after it; anything else
  throws a SyntaxError.
\<close>

definition JSON_parse :: "jsstring \<Rightarrow> exn + jvalue" where
  "JSON_parse s =
     (case parse_value (2 * length s + 1) s of
        Parsed v rest \<Rightarrow> if skip_ws rest = [] then Inr v else Inl SyntaxError
      | Failed \<Rightarrow> Inl SyntaxError
      | Exhausted \<Rightarrow> Inl RangeError)"

section \<open>Property reads and coercions\<close>

text \<open>
  \<^verbatim>\<open>v.k\<close> on a value that came out of \<^verbatim>\<open>JSON.parse\<close>, for the property names this
  program reads (\<^verbatim>\<open>results\<close>, \<^verbatim>\<open>type\<close>, \<^verbatim>\<open>value\<close>, \<^verbatim>\<open>uncertain\<close>,
  \<^verbatim>\<open>choices\<close>, \<^verbatim>\<open>message\<close>, \<^verbatim>\<open>content\<close>, \<^verbatim>\<open>error\<close>): none of them is
  defined on a prototype, so an object answers with its own member (the last one of that
  name), any other value except \<^verbatim>\<open>null\<close> answers \<^verbatim>\<open>undefined\<close> (\<open>None\<close>), and
  \<^verbatim>\<open>null\<close> throws a TypeError.
\<close>

fun get_prop :: "jvalue \<Rightarrow> jsstring \<Rightarrow> exn + jvalue option" where
  "get_prop JNull k = Inl TypeError"
| "get_prop (JObject kvs) k = Inr (map_of (rev kvs) k)"
| "get_prop v k = Inr None"

text \<open>\<^verbatim>\<open>x ?? d\<close>: the default replaces \<^verbatim>\<open>undefined\<close> and \<^verbatim>\<open>null\<close> only.\<close>

fun nullish :: "jvalue option \<Rightarrow> jvalue \<Rightarrow> jvalue" where
  "nullish None d = d"
| "nullish (Some JNull) d = d"
| "nullish (Some v) d = v"

text \<open>\<^verbatim>\<open>x?.k\<close>: \<^verbatim>\<open>undefined\<close> when \<open>x\<close> is \<^verbatim>\<open>undefined\<close> or \<^verbatim>\<open>null\<close>.\<close>

fun opt_chain :: "jvalue option \<Rightarrow> jsstring \<Rightarrow> jvalue option" where
  "opt_chain None k = None"
| "opt_chain (Some JNull) k = None"
| "opt_chain (Some v) k = (case get_prop v k of Inr r \<Rightarrow> r | Inl e \<Rightarrow> None)"

text \<open>
  \<^verbatim>\<open>x?.[0]\<close>: the first element of an array, the first code unit of a string as a string,
  the member \<^verbatim>\<open>"0"\<close> of an object.
\<close>

fun opt_index0 :: "jvalue option \<Rightarrow> jvalue option" where
  "opt_index0 (Some (JArray xs)) = (case xs of [] \<Rightarrow> None | x # _ \<Rightarrow> Some x)"
| "opt_index0 (Some (JString s)) = (case s of [] \<Rightarrow> None | c # _ \<Rightarrow> Some (JString [c]))"
| "opt_index0 (Some (JObject kvs)) = map_of (rev kvs) (str ''0'')"
| "opt_index0 x = None"

text \<open>
  Truthiness. A number is falsy when it is zero as a double, that is when the decimal value
  \<open>m * 10 ^ e\<close> of its literal rounds to zero (to nearest, ties to even): it is at most
  \<open>2 ^ -1075\<close>, half the least positive double, in absolute value.
\<close>

definition rounds_to_zero :: "int \<Rightarrow> int \<Rightarrow> bool" where
  "rounds_to_zero m e \<longleftrightarrow>
     m = 0 \<or> (e < 0 \<and> \<bar>m\<bar> * 2 ^ 1075 \<le> 10 ^ nat (- e))"

fun truthy :: "jvalue \<Rightarrow> bool" where
  "truthy JNull = False"
| "truthy (JBool b) = b"
| "truthy (JNumber m e) = (\<not> rounds_to_zero m e)"
| "truthy (JString s) = (s \<noteq> [])"
| "truthy (JArray xs) = True"
| "truthy (JObject kvs) = True"

text \<open>\<^verbatim>\<open>!!x\<close>, with \<open>None\<close> for \<^verbatim>\<open>undefined\<close>.\<close>

fun to_boolean :: "jvalue option \<Rightarrow> bool" where
  "to_boolean None = False"
| "to_boolean (Some v) = truthy v"

section \<open>The result records and the response\<close>

text \<open>
  \<^verbatim>\<open>interface ExtractResult\<close> (lines 42 to 46). The tag \<^verbatim>\<open>"reg"\<close> is the one the
  specification calls registration. The field \<open>value\<close> holds whatever the reply carried:
  line 111 replaces only a missing or \<^verbatim>\<open>null\<close> value.
\<close>

datatype kind = reg | vin

record ExtractResult =
  type :: kind
  "value" :: jvalue
  uncertain :: bool

text \<open>
  The \<^verbatim>\<open>error\<close> member of an error body is a value of the program, or the message of a
  built-in error, whose text the engine chooses.
\<close>

datatype error_text = Value jvalue | MessageOf exn

datatype body = Results "ExtractResult list" | ErrorBody error_text

record response =
  status :: nat
  body :: body

section \<open>\<^verbatim>\<open>res.json\<close>: serialising a body\<close>

text \<open>
  \<^verbatim>\<open>res.json(body)\<close> calls \<^verbatim>\<open>JSON.stringify\<close>, which recurses into arrays and objects and
  throws a RangeError when the nesting of the value exhausts the stack. How deep a value may
  nest is decided by the engine, not by this program, so the engine's answer is a parameter:
  \<open>serializes v\<close> says that \<^verbatim>\<open>JSON.stringify\<close> returns on \<open>v\<close>. The bodies the handler
  builds from scalars nest at most three levels (\<^verbatim>\<open>{results: [{...}]}\<close>); an engine that runs
  the handler serialises those, so only a body that carries a nested value from a reply can
  make the call throw.
\<close>

type_synonym engine = "jvalue \<Rightarrow> bool"

fun depth :: "jvalue \<Rightarrow> nat" where
  "depth (JArray xs) = Suc (foldr (\<lambda>x d. max (depth x) d) xs 0)"
| "depth (JObject kvs) = Suc (foldr (\<lambda>x d. max (depth x) d) (map snd kvs) 0)"
| "depth v = 0"

definition stringify_throws :: "engine \<Rightarrow> jvalue \<Rightarrow> bool" where
  "stringify_throws serializes v \<longleftrightarrow> 3 < depth v \<and> \<not> serializes v"

text \<open>An engine whose \<^verbatim>\<open>JSON.stringify\<close> descends \<open>n\<close> levels, for concrete runs.\<close>

definition stack_depth :: "nat \<Rightarrow> engine" where
  "stack_depth n v \<longleftrightarrow> depth v \<le> n"

text \<open>The object literals of lines 109 to 113 and of line 115, as the values they denote.\<close>

definition result_json :: "ExtractResult \<Rightarrow> jvalue" where
  "result_json r =
     JObject [(str ''type'', JString (case type r of vin \<Rightarrow> str ''vin'' | reg \<Rightarrow> str ''reg'')),
              (str ''value'', value r),
              (str ''uncertain'', JBool (uncertain r))]"

definition results_json :: "ExtractResult list \<Rightarrow> jvalue" where
  "results_json results = JObject [(str ''results'', JArray (map result_json results))]"

section \<open>The handler of \<^verbatim>\<open>POST /api/extract\<close> (lines 48 to 120)\<close>

text \<open>The arrow function of lines 109 to 113.\<close>

definition coerce :: "jvalue \<Rightarrow> exn + ExtractResult" where
  "coerce r =
     (case get_prop r (str ''type'') of
        Inl e \<Rightarrow> Inl e
      | Inr t \<Rightarrow>
          (case get_prop r (str ''value'') of
             Inl e \<Rightarrow> Inl e
           | Inr v \<Rightarrow>
               (case get_prop r (str ''uncertain'') of
                  Inl e \<Rightarrow> Inl e
                | Inr u \<Rightarrow>
                    Inr \<lparr>type = (if t = Some (JString (str ''vin'')) then vin else reg),
                         value = nullish v (JString []),
                         uncertain = to_boolean u\<rparr>)))"

text \<open>
  \<^verbatim>\<open>xs.map(f)\<close>: the callback runs on the elements in order and the first exception ends
  the call; a value that is not an array has no \<^verbatim>\<open>map\<close> method, and calling it throws a
  TypeError.
\<close>

fun map_exn :: "('a \<Rightarrow> exn + 'b) \<Rightarrow> 'a list \<Rightarrow> exn + 'b list" where
  "map_exn f [] = Inr []"
| "map_exn f (x # xs) =
     (case f x of
        Inl e \<Rightarrow> Inl e
      | Inr y \<Rightarrow> (case map_exn f xs of Inl e \<Rightarrow> Inl e | Inr ys \<Rightarrow> Inr (y # ys)))"

fun js_map :: "(jvalue \<Rightarrow> exn + 'b) \<Rightarrow> jvalue \<Rightarrow> exn + 'b list" where
  "js_map f (JArray xs) = map_exn f xs"
| "js_map f v = Inl TypeError"

text \<open>
  Lines 108 to 115: the matched substring is parsed, its results are coerced, and
  \<^verbatim>\<open>res.json\<close> serialises them, all inside the \<^verbatim>\<open>try\<close>.
\<close>

definition parse_and_coerce :: "engine \<Rightarrow> jsstring \<Rightarrow> exn + response" where
  "parse_and_coerce serializes jsonMatch =
     (case JSON_parse jsonMatch of
        Inl e \<Rightarrow> Inl e
      | Inr parsed \<Rightarrow>
          (case get_prop parsed (str ''results'') of
             Inl e \<Rightarrow> Inl e
           | Inr field \<Rightarrow>
               (case js_map coerce (nullish field (JArray [])) of
                  Inl e \<Rightarrow> Inl e
                | Inr results \<Rightarrow>
                    if stringify_throws serializes (results_json results) then Inl RangeError
                    else Inr \<lparr>status = 200, body = Results results\<rparr>)))"

text \<open>
  Lines 102 to 115, from the reply text to the response. \<^verbatim>\<open>text.match\<close> exists on
  strings only.
\<close>

definition parse_failure :: response where
  "parse_failure =
     \<lparr>status = 502,
      body = ErrorBody (Value (JString (str ''Could not parse response from Claude.'')))\<rparr>"

definition normalize_reply :: "engine \<Rightarrow> jvalue \<Rightarrow> exn + response" where
  "normalize_reply serializes text =
     (case text of
        JString t \<Rightarrow>
          (case regexp_exec t of
             None \<Rightarrow> Inr parse_failure
           | Some jsonMatch \<Rightarrow> parse_and_coerce serializes jsonMatch)
      | _ \<Rightarrow> Inl TypeError)"

text \<open>Line 100: \<^verbatim>\<open>data.choices?.[0]?.message?.content ?? ""\<close>.\<close>

definition reply_text :: "jvalue \<Rightarrow> exn + jvalue" where
  "reply_text data =
     (case get_prop data (str ''choices'') of
        Inl e \<Rightarrow> Inl e
      | Inr choices \<Rightarrow>
          Inr (nullish (opt_chain (opt_chain (opt_index0 choices) (str ''message''))
                          (str ''content''))
                 (JString [])))"

text \<open>
  What the upstream call does: \<^verbatim>\<open>fetch\<close> rejects, or it resolves to a response with a
  status and a body that \<^verbatim>\<open>response.json()\<close> either parses or rejects.
  \<^verbatim>\<open>response.ok\<close> is true for the statuses 200 to 299.
\<close>

datatype upstream = FetchRejects exn | Response nat "exn + jvalue"

definition response_ok :: "nat \<Rightarrow> bool" where
  "response_ok st \<longleftrightarrow> 200 \<le> st \<and> st \<le> 299"

fun decimal :: "nat \<Rightarrow> jsstring" where
  "decimal n =
     (if n < 10 then [of_nat (48 + n)]
      else decimal (n div 10) @ [of_nat (48 + n mod 10)])"

declare decimal.simps [simp del]

text \<open>The body of the \<^verbatim>\<open>try\<close> (lines 62 to 115); \<open>Inl\<close> is an exception thrown in it.\<close>

definition try_block :: "engine \<Rightarrow> upstream \<Rightarrow> exn + response" where
  "try_block serializes up =
     (case up of
        FetchRejects e \<Rightarrow> Inl e
      | Response st js \<Rightarrow>
          if \<not> response_ok st then
            (case get_prop (case js of Inl e \<Rightarrow> JObject [] | Inr v \<Rightarrow> v) (str ''error'') of
               Inl e \<Rightarrow> Inl e
             | Inr err \<Rightarrow>
                 (case nullish (opt_chain err (str ''message''))
                         (JString (str ''OpenRouter API error: '' @ decimal st)) of
                    msg \<Rightarrow>
                      if stringify_throws serializes (JObject [(str ''error'', msg)])
                      then Inl RangeError
                      else Inr \<lparr>status = 502, body = ErrorBody (Value msg)\<rparr>))
          else
            (case js of
               Inl e \<Rightarrow> Inl e
             | Inr data \<Rightarrow>
                 (case reply_text data of
                    Inl e \<Rightarrow> Inl e
                  | Inr text \<Rightarrow> normalize_reply serializes text)))"

text \<open>The \<^verbatim>\<open>catch\<close> (lines 116 to 119).\<close>

definition catch_block :: "exn \<Rightarrow> response" where
  "catch_block err =
     \<lparr>status = 500,
      body = ErrorBody (case err of
                          NonError \<Rightarrow> Value (JString (str ''Unknown error''))
                        | _ \<Rightarrow> MessageOf err)\<rparr>"

text \<open>
  The handler. \<open>serializes\<close> is the engine's \<^verbatim>\<open>JSON.stringify\<close>, \<open>apiKey\<close> is \<^verbatim>\<open>process.env.OPENROUTER_API_KEY\<close> (\<open>None\<close> when the variable
  is not set), \<open>img\<close> is the member \<^verbatim>\<open>image\<close> of the request body as
  \<^verbatim>\<open>express.json\<close> parsed it (\<open>None\<close> when it has none), and \<open>up\<close> is what the upstream
  call does when it is made.
\<close>

definition handler ::
  "engine \<Rightarrow> jsstring option \<Rightarrow> jvalue option \<Rightarrow> upstream \<Rightarrow> response" where
  "handler serializes apiKey img up =
     (if apiKey = None \<or> apiKey = Some [] then
        \<lparr>status = 500,
         body = ErrorBody (Value (JString (str ''Server misconfiguration: missing API key'')))\<rparr>
      else if \<not> to_boolean img then
        \<lparr>status = 400,
         body = ErrorBody (Value (JString (str ''Missing 'image' field (expected a data URL)'')))\<rparr>
      else
        (case try_block serializes up of
           Inl e \<Rightarrow> catch_block e
         | Inr r \<Rightarrow> r))"

text \<open>
  A successful upstream body of the shape lines 97 to 99 declare, carrying \<open>content\<close> as the
  reply text. It is used to state concrete requests.
\<close>

definition chat_completion :: "jsstring \<Rightarrow> jvalue" where
  "chat_completion content =
     JObject [(str ''choices'',
       JArray [JObject [(str ''message'', JObject [(str ''content'', JString content)])]])]"

section \<open>The state a match leaves in the engine\<close>







section \<open>The match is the span from the first opening to the last closing brace\<close>

text \<open>The class \<^verbatim>\<open>[\s\S]\<close> holds every code unit.\<close>

lemma class_sS_True [simp]: "class_sS c"
  by (simp add: class_sS_def)

lemma class_sS_code [code]: "class_sS c = True"
  by simp

lemma lbrace_neq_rbrace [simp]: "lbrace \<noteq> rbrace" "rbrace \<noteq> lbrace"
  by (simp_all add: lbrace_def rbrace_def ch_def)

lemma takeWhile_rev_less:
  assumes "c \<in> set xs"
  shows "length (takeWhile (\<lambda>y. y \<noteq> c) (rev xs)) < length xs"
proof -
  have "takeWhile (\<lambda>y. y \<noteq> c) (rev xs) \<noteq> rev xs"
    using assms by (simp add: takeWhile_eq_all_conv)
  moreover have "length (takeWhile (\<lambda>y. y \<noteq> c) (rev xs)) \<le> length (rev xs)"
    by (rule length_takeWhile_le)
  ultimately show ?thesis
    by (metis le_neq_implies_less length_rev takeWhile_eq_take take_all_iff order_refl)
qed

lemma last_index_None [simp]: "last_index c xs = None \<longleftrightarrow> c \<notin> set xs"
  by (simp add: last_index_def)

lemma first_index_None [simp]: "first_index c xs = None \<longleftrightarrow> c \<notin> set xs"
  by (simp add: first_index_def)

lemma last_index_SomeD: "last_index c xs = Some j \<Longrightarrow> c \<in> set xs"
  by (simp add: last_index_def split: if_splits)

lemma first_index_SomeD: "first_index c xs = Some j \<Longrightarrow> c \<in> set xs"
  by (simp add: first_index_def split: if_splits)

lemma last_index_Cons:
  "last_index c (x # xs) =
     (case last_index c xs of Some j \<Rightarrow> Some (Suc j) | None \<Rightarrow> if x = c then Some 0 else None)"
proof (cases "c \<in> set xs")
  case True
  then have "takeWhile (\<lambda>y. y \<noteq> c) (rev xs @ [x]) = takeWhile (\<lambda>y. y \<noteq> c) (rev xs)"
    by (intro takeWhile_append1[where x=c]) auto
  then show ?thesis using True takeWhile_rev_less[OF True] by (auto simp: last_index_def)
next
  case False
  then have "takeWhile (\<lambda>y. y \<noteq> c) (rev xs @ [x]) = rev xs @ takeWhile (\<lambda>y. y \<noteq> c) [x]"
    by (intro takeWhile_append2) auto
  then show ?thesis using False by (auto simp: last_index_def)
qed

lemma first_index_Cons:
  "first_index c (x # xs) = (if x = c then Some 0 else map_option Suc (first_index c xs))"
  by (auto simp: first_index_def)

lemma first_index_is_first:
  "first_index c t = Some i \<Longrightarrow> i < length t \<and> t ! i = c \<and> (\<forall>k<i. t ! k \<noteq> c)"
proof (induction t arbitrary: i)
  case Nil
  then show ?case by (simp add: first_index_def)
next
  case (Cons x xs)
  show ?case
  proof (cases "x = c")
    case True
    with Cons.prems show ?thesis by (simp add: first_index_Cons)
  next
    case False
    with Cons.prems obtain i' where i': "first_index c xs = Some i'" "i = Suc i'"
      by (auto simp: first_index_Cons)
    from Cons.IH[OF i'(1)] False i'(2) show ?thesis
      by (auto simp: nth_Cons split: nat.splits)
  qed
qed

lemma last_index_is_last:
  "last_index c t = Some j \<Longrightarrow>
     j < length t \<and> t ! j = c \<and> (\<forall>k. j < k \<and> k < length t \<longrightarrow> t ! k \<noteq> c)"
proof (induction t arbitrary: j)
  case Nil
  then show ?case by (simp add: last_index_def)
next
  case (Cons x xs)
  show ?case
  proof (cases "last_index c xs")
    case None
    with Cons.prems have "x = c" "j = 0" "c \<notin> set xs"
      by (auto simp: last_index_Cons split: if_splits)
    then show ?thesis by (auto simp: nth_Cons split: nat.splits)
  next
    case (Some j')
    with Cons.prems have "j = Suc j'" by (simp add: last_index_Cons)
    with Cons.IH[OF Some] show ?thesis
      by (auto simp: nth_Cons split: nat.splits)
  qed
qed

lemma star_close_eq: "star_close cs = map_option Suc (last_index rbrace cs)"
  by (induction cs) (auto simp: last_index_Cons dest: last_index_SomeD split: option.splits)

lemma regexp_exec_no_close: "rbrace \<notin> set cs \<Longrightarrow> regexp_exec cs = None"
  by (induction cs) (auto simp: star_close_eq dest: last_index_SomeD split: option.splits)

lemma regexp_exec_brace_span: "regexp_exec t = brace_span t"
proof (induction t)
  case Nil
  then show ?case by (simp add: brace_span_def first_index_def)
next
  case (Cons c cs)
  show ?case
  proof (cases "c = lbrace")
    case True
    then show ?thesis
      using regexp_exec_no_close[of cs]
      by (auto simp: brace_span_def star_close_eq first_index_Cons last_index_Cons
               dest: last_index_SomeD split: option.splits)
  next
    case False
    then show ?thesis
      using Cons
      by (auto simp: brace_span_def star_close_eq first_index_Cons last_index_Cons
               dest: last_index_SomeD first_index_SomeD split: option.splits)
  qed
qed


lemma first_index_unique:
  assumes "i < length t" "t ! i = c" "\<forall>k<i. t ! k \<noteq> c"
  shows "first_index c t = Some i"
proof -
  have "c \<in> set t" using assms(1,2) by (metis nth_mem)
  then obtain i' where i': "first_index c t = Some i'"
    by (cases "first_index c t") auto
  from first_index_is_first[OF i'] assms have "i' = i"
    by (metis linorder_neqE_nat)
  with i' show ?thesis by simp
qed

lemma last_index_unique:
  assumes "j < length t" "t ! j = c" "\<forall>k. j < k \<and> k < length t \<longrightarrow> t ! k \<noteq> c"
  shows "last_index c t = Some j"
proof -
  have "c \<in> set t" using assms(1,2) by (metis nth_mem)
  then obtain j' where j': "last_index c t = Some j'"
    by (cases "last_index c t") auto
  from last_index_is_last[OF j'] assms have "j' = j"
    by (metis linorder_neqE_nat)
  with j' show ?thesis by simp
qed

lemma brace_span_Some_iff:
  "brace_span t = Some m \<longleftrightarrow>
     (\<exists>i j. i < j \<and> j < length t \<and> t ! i = lbrace \<and> t ! j = rbrace \<and>
        (\<forall>k<i. t ! k \<noteq> lbrace) \<and> (\<forall>k. j < k \<and> k < length t \<longrightarrow> t ! k \<noteq> rbrace) \<and>
        m = take (j + 1 - i) (drop i t))"
  (is "?L \<longleftrightarrow> ?R")
proof
  assume ?L
  then obtain i j where ij: "first_index lbrace t = Some i" "last_index rbrace t = Some j"
      "i < j" "m = take (j + 1 - i) (drop i t)"
    by (auto simp: brace_span_def split: option.splits if_splits)
  from first_index_is_first[OF ij(1)] last_index_is_last[OF ij(2)] ij(3,4)
  show ?R by blast
next
  assume ?R
  then obtain i j where ij: "i < j" "j < length t" "t ! i = lbrace" "t ! j = rbrace"
      "\<forall>k<i. t ! k \<noteq> lbrace" "\<forall>k. j < k \<and> k < length t \<longrightarrow> t ! k \<noteq> rbrace"
      "m = take (j + 1 - i) (drop i t)"
    by blast
  have "first_index lbrace t = Some i"
    using ij(1,2,3,5) by (intro first_index_unique) auto
  moreover have "last_index rbrace t = Some j"
    using ij(2,4,6) by (intro last_index_unique) auto
  ultimately show ?L using ij(1,7) by (simp add: brace_span_def)
qed

lemma brace_span_None_iff:
  "brace_span t = None \<longleftrightarrow>
     \<not> (\<exists>i j. i < j \<and> j < length t \<and> t ! i = lbrace \<and> t ! j = rbrace)"
  (is "?L \<longleftrightarrow> \<not> ?R")
proof
  assume L: ?L
  show "\<not> ?R"
  proof
    assume ?R
    then obtain i j where ij: "i < j" "j < length t" "t ! i = lbrace" "t ! j = rbrace"
      by blast
    then have "lbrace \<in> set t" "rbrace \<in> set t"
      by (metis nth_mem order.strict_trans)+
    then obtain i' j' where f: "first_index lbrace t = Some i'" and l: "last_index rbrace t = Some j'"
      by (cases "first_index lbrace t"; cases "last_index rbrace t") auto
    from first_index_is_first[OF f] ij have "i' \<le> i" by (meson not_le_imp_less)
    moreover from last_index_is_last[OF l] ij have "j \<le> j'" by (meson not_le_imp_less)
    ultimately have "i' < j'" using ij(1) by linarith
    with f l L show False by (simp add: brace_span_def)
  qed
next
  assume "\<not> ?R"
  then show ?L
    using brace_span_Some_iff[of t] by (cases "brace_span t") blast+
qed


text \<open>
  C2. For every raw text, the backtracking match of line 102 is the span the specification
  describes: when there are positions \<open>i < j\<close> holding an opening and a closing brace, the
  match exists and runs from the first opening brace of the text to the last closing brace of
  the text, both included; otherwise there is no match. That match is the substring the
  Normalizer hands to the JSON parser.
\<close>

theorem greedy_brace_match:
  "regexp_exec text = brace_span text \<and>
   (case regexp_exec text of
      None \<Rightarrow> \<not> (\<exists>i j. i < j \<and> j < length text \<and> text ! i = lbrace \<and> text ! j = rbrace)
    | Some m \<Rightarrow>
        (\<exists>i j. i < j \<and> j < length text \<and> text ! i = lbrace \<and> text ! j = rbrace \<and>
           (\<forall>k<i. text ! k \<noteq> lbrace) \<and>
           (\<forall>k. j < k \<and> k < length text \<longrightarrow> text ! k \<noteq> rbrace) \<and>
           m = take (j + 1 - i) (drop i text))) \<and>
   normalize_reply serializes (JString text) =
     (case brace_span text of
        None \<Rightarrow> Inr parse_failure
      | Some m \<Rightarrow> parse_and_coerce serializes m)"
proof (intro conjI)
  show eq: "regexp_exec text = brace_span text"
    by (rule regexp_exec_brace_span)
  show "case regexp_exec text of
      None \<Rightarrow> \<not> (\<exists>i j. i < j \<and> j < length text \<and> text ! i = lbrace \<and> text ! j = rbrace)
    | Some m \<Rightarrow>
        (\<exists>i j. i < j \<and> j < length text \<and> text ! i = lbrace \<and> text ! j = rbrace \<and>
           (\<forall>k<i. text ! k \<noteq> lbrace) \<and>
           (\<forall>k. j < k \<and> k < length text \<longrightarrow> text ! k \<noteq> rbrace) \<and>
           m = take (j + 1 - i) (drop i text))"
  proof (cases "brace_span text")
    case None
    then show ?thesis
      using brace_span_None_iff[of "text"] by (simp add: eq)
  next
    case (Some m)
    then show ?thesis
      using brace_span_Some_iff[of "text" m] by (simp add: eq)
  qed
  show "normalize_reply serializes (JString text) =
     (case brace_span text of
        None \<Rightarrow> Inr parse_failure
      | Some m \<Rightarrow> parse_and_coerce serializes m)"
    by (simp add: normalize_reply_def eq)
qed

theorem greedy_brace_match_witness:
  "brace_span (str ''ab{c}d}e{f'') = Some (str ''{c}d}'')"
proof -
  have "regexp_exec (str ''ab{c}d}e{f'') = Some (str ''{c}d}'')"
    by code_simp
  then show ?thesis
    using greedy_brace_match [of "str ''ab{c}d}e{f''"] by simp
qed

section \<open>The parser never runs out of its recursion budget\<close>

lemma skip_ws_length: "length (skip_ws s) \<le> length s"
  by (simp add: skip_ws_def length_dropWhile_le)

lemma skip_ws_Cons_length: "skip_ws s = c # cs \<Longrightarrow> length cs < length s"
  using skip_ws_length[of s] by simp

lemma parse_string_length: "parse_string s = Some (x, r) \<Longrightarrow> length r < length s"
proof (induction s arbitrary: x r rule: parse_string.induct)
  case 1
  then show ?case by simp
next
  case (2 c cs)
  then show ?case
    by (fastforce split: if_splits list.splits option.splits)
qed

lemma opt_minus_length: "opt_minus s = (b, r) \<Longrightarrow> length r \<le> length s"
  by (auto simp: opt_minus_def split: list.splits if_splits)

lemma opt_sign_length: "opt_sign s = (b, r) \<Longrightarrow> length r \<le> length s"
  by (auto simp: opt_sign_def split: list.splits if_splits)

lemma int_part_length: "int_part s = (ds, r) \<Longrightarrow> length r \<le> length s"
  by (auto simp: int_part_def split: list.splits if_splits intro: le_SucI length_dropWhile_le)

lemma frac_part_length: "frac_part s = Some (ds, r) \<Longrightarrow> length r \<le> length s"
  by (auto simp: frac_part_def split: list.splits if_splits intro: le_SucI length_dropWhile_le)

lemma exp_part_length: "exp_part s = Some (ex, r) \<Longrightarrow> length r \<le> length s"
proof (cases s)
  case Nil
  then show "exp_part s = Some (ex, r) \<Longrightarrow> ?thesis" by (simp add: exp_part_def)
next
  case (Cons c cs)
  assume a: "exp_part s = Some (ex, r)"
  show ?thesis
  proof (cases "c = ch CHR ''e'' \<or> c = ch CHR ''E''")
    case False
    with a Cons show ?thesis by (auto simp: exp_part_def)
  next
    case True
    obtain neg ds where o: "opt_sign cs = (neg, ds)" by (cases "opt_sign cs")
    with a Cons True have "r = dropWhile is_digit ds"
      by (auto simp: exp_part_def split: if_splits)
    then have "length r \<le> length ds" by (simp add: length_dropWhile_le)
    with opt_sign_length[OF o] Cons show ?thesis by simp
  qed
qed

lemma parse_number_length: "parse_number s = Parsed v r \<Longrightarrow> length r \<le> length s"
proof -
  assume a: "parse_number s = Parsed v r"
  obtain neg s1 where 1: "opt_minus s = (neg, s1)" by (cases "opt_minus s")
  obtain ip s2 where 2: "int_part s1 = (ip, s2)" by (cases "int_part s1")
  from a 1 2 obtain fp s3 where 3: "frac_part s2 = Some (fp, s3)"
    by (auto simp: parse_number_def split: if_splits option.splits)
  from a 1 2 3 obtain ex where 4: "exp_part s3 = Some (ex, r)"
    by (auto simp: parse_number_def split: if_splits option.splits)
  from opt_minus_length[OF 1] int_part_length[OF 2] frac_part_length[OF 3] exp_part_length[OF 4]
  show ?thesis by linarith
qed

lemma parse_literal_length: "parse_literal s = Parsed v r \<Longrightarrow> length r \<le> length s"
  by (auto simp: parse_literal_def split: if_splits)

lemma map_parse_Parsed: "map_parse f p = Parsed y r \<longleftrightarrow> (\<exists>x. p = Parsed x r \<and> y = f x)"
  by (cases p) auto

lemma map_parse_Exhausted [simp]: "map_parse f p = Exhausted \<longleftrightarrow> p = Exhausted"
  by (cases p) auto

lemma parse_length:
  "(\<forall>v r. parse_value n s = Parsed v r \<longrightarrow> length r \<le> length s)"
  "(\<forall>vs r. parse_elements n s = Parsed vs r \<longrightarrow> length r \<le> length s)"
  "(\<forall>kvs r. parse_members n s = Parsed kvs r \<longrightarrow> length r \<le> length s)"
proof (induction n s and n s and n s rule: parse_value_parse_elements_parse_members.induct)
  case (1 s)
  then show ?case by simp
next
  case (2 n s)
  show ?case
  proof (intro allI impI)
    fix v r
    assume a: "parse_value (Suc n) s = Parsed v r"
    then obtain c cs where s: "skip_ws s = c # cs"
      by (cases "skip_ws s") auto
    note l1 = skip_ws_Cons_length[OF s]
    consider (obj) "c = lbrace" | (arr) "c \<noteq> lbrace" "c = ch CHR ''[''"
      | (strg) "c \<noteq> lbrace" "c \<noteq> ch CHR ''[''" "c = ch CHR ''\"''"
      | (num) "c \<noteq> lbrace" "c \<noteq> ch CHR ''[''" "c \<noteq> ch CHR ''\"''" "c = ch CHR ''-'' \<or> is_digit c"
      | (lit) "c \<noteq> lbrace" "c \<noteq> ch CHR ''[''" "c \<noteq> ch CHR ''\"''" "\<not> (c = ch CHR ''-'' \<or> is_digit c)"
      by blast
    then show "length r \<le> length s"
    proof cases
      case obj
      from a s obj obtain d ds where d: "skip_ws cs = d # ds"
        by (cases "skip_ws cs") auto
      note l2 = skip_ws_Cons_length[OF d]
      show ?thesis
      proof (cases "d = rbrace")
        case True
        with a s obj d l1 l2 show ?thesis by auto
      next
        case False
        with a s obj d obtain kvs where "parse_members n (d # ds) = Parsed kvs r"
          by (auto simp: map_parse_Parsed)
        with "2.IH"(1)[OF s obj d False] have "length r \<le> length (d # ds)" by blast
        with l1 l2 show ?thesis by simp
      qed
    next
      case arr
      from a s arr obtain d ds where d: "skip_ws cs = d # ds"
        by (cases "skip_ws cs") auto
      note l2 = skip_ws_Cons_length[OF d]
      show ?thesis
      proof (cases "d = ch CHR '']''")
        case True
        with a s arr d l1 l2 show ?thesis by auto
      next
        case False
        with a s arr d obtain vs where "parse_elements n (d # ds) = Parsed vs r"
          by (auto simp: map_parse_Parsed)
        with "2.IH"(2)[OF s arr d False] have "length r \<le> length (d # ds)" by blast
        with l1 l2 show ?thesis by simp
      qed
    next
      case strg
      with a s obtain x where "parse_string cs = Some (x, r)"
        by (auto split: option.splits)
      from parse_string_length[OF this] l1 show ?thesis by simp
    next
      case num
      with a s have "parse_number (c # cs) = Parsed v r" by auto
      from parse_number_length[OF this] l1 show ?thesis by simp
    next
      case lit
      with a s have "parse_literal (c # cs) = Parsed v r" by auto
      from parse_literal_length[OF this] l1 show ?thesis by simp
    qed
  qed
next
  case (3 s)
  then show ?case by simp
next
  case (4 n s)
  show ?case
  proof (intro allI impI)
    fix vs r
    assume a: "parse_elements (Suc n) s = Parsed vs r"
    then obtain v rest where v: "parse_value n s = Parsed v rest"
      by (cases "parse_value n s") auto
    with "4.IH"(1) have l1: "length rest \<le> length s" by blast
    from a v obtain c cs where c: "skip_ws rest = c # cs"
      by (cases "skip_ws rest") auto
    note l2 = skip_ws_Cons_length[OF c]
    show "length r \<le> length s"
    proof (cases "c = ch CHR '',''")
      case True
      with a v c obtain vs' where "parse_elements n cs = Parsed vs' r"
        by (auto simp: map_parse_Parsed)
      with "4.IH"(2)[OF v c True] have "length r \<le> length cs" by blast
      with l1 l2 show ?thesis by simp
    next
      case False
      with a v c have "r = cs" by (auto split: if_splits)
      with l1 l2 show ?thesis by simp
    qed
  qed
next
  case (5 s)
  then show ?case by simp
next
  case (6 n s)
  show ?case
  proof (intro allI impI)
    fix kvs r
    assume a: "parse_members (Suc n) s = Parsed kvs r"
    then obtain q qs where q: "skip_ws s = q # qs"
      by (cases "skip_ws s") auto
    note l1 = skip_ws_Cons_length[OF q]
    from a q have qq: "\<not> q \<noteq> ch CHR ''\"''" by (auto split: if_splits)
    from a q qq obtain k rest where k: "parse_string qs = Some (k, rest)"
      by (cases "parse_string qs") auto
    note l2 = parse_string_length[OF k]
    from a q qq k obtain d ds where d: "skip_ws rest = d # ds"
      by (cases "skip_ws rest") auto
    note l3 = skip_ws_Cons_length[OF d]
    from a q qq k d have dd: "\<not> d \<noteq> ch CHR '':''" by (auto split: if_splits)
    from a q qq k d dd obtain v rest' where v: "parse_value n ds = Parsed v rest'"
      by (cases "parse_value n ds") auto
    from "6.IH"(1)[OF q qq k refl d dd] v have l4: "length rest' \<le> length ds" by blast
    from a q qq k d dd v obtain c cs where c: "skip_ws rest' = c # cs"
      by (cases "skip_ws rest'") auto
    note l5 = skip_ws_Cons_length[OF c]
    show "length r \<le> length s"
    proof (cases "c = ch CHR '',''")
      case True
      with a q qq k d dd v c obtain kvs' where "parse_members n cs = Parsed kvs' r"
        by (auto simp: map_parse_Parsed)
      with "6.IH"(2)[OF q qq k refl d dd v c True] have "length r \<le> length cs" by blast
      with l1 l2 l3 l4 l5 show ?thesis by simp
    next
      case False
      with a q qq k d dd v c have "r = cs" by (auto split: if_splits)
      with l1 l2 l3 l4 l5 show ?thesis by simp
    qed
  qed
qed


lemma parse_number_not_Exhausted: "parse_number s \<noteq> Exhausted"
  by (auto simp: parse_number_def split: prod.splits option.splits)

lemma parse_literal_not_Exhausted: "parse_literal s \<noteq> Exhausted"
  by (auto simp: parse_literal_def)

lemma parse_fuel:
  "2 * length s < n \<longrightarrow> parse_value n s \<noteq> Exhausted"
  "2 * length s + 1 < n \<longrightarrow> parse_elements n s \<noteq> Exhausted"
  "2 * length s + 1 < n \<longrightarrow> parse_members n s \<noteq> Exhausted"
proof (induction n s and n s and n s rule: parse_value_parse_elements_parse_members.induct)
  case (1 s)
  then show ?case by simp
next
  case (2 n s)
  show ?case
  proof (intro impI notI)
    assume n: "2 * length s < Suc n" and a: "parse_value (Suc n) s = Exhausted"
    then obtain c cs where s: "skip_ws s = c # cs"
      by (cases "skip_ws s") auto
    note l1 = skip_ws_Cons_length[OF s]
    consider (obj) "c = lbrace" | (arr) "c \<noteq> lbrace" "c = ch CHR ''[''"
      | (strg) "c \<noteq> lbrace" "c \<noteq> ch CHR ''[''" "c = ch CHR ''\"''"
      | (num) "c \<noteq> lbrace" "c \<noteq> ch CHR ''[''" "c \<noteq> ch CHR ''\"''" "c = ch CHR ''-'' \<or> is_digit c"
      | (lit) "c \<noteq> lbrace" "c \<noteq> ch CHR ''[''" "c \<noteq> ch CHR ''\"''" "\<not> (c = ch CHR ''-'' \<or> is_digit c)"
      by blast
    then show False
    proof cases
      case obj
      from a s obj obtain d ds where d: "skip_ws cs = d # ds"
        by (cases "skip_ws cs") auto
      note l2 = skip_ws_Cons_length[OF d]
      from a s obj d have nr: "d \<noteq> rbrace" by (auto split: if_splits)
      with a s obj d have "parse_members n (d # ds) = Exhausted" by auto
      moreover have "2 * length (d # ds) + 1 < n" using l1 l2 n by simp
      ultimately show False using "2.IH"(1)[OF s obj d nr] by blast
    next
      case arr
      from a s arr obtain d ds where d: "skip_ws cs = d # ds"
        by (cases "skip_ws cs") auto
      note l2 = skip_ws_Cons_length[OF d]
      from a s arr d have nr: "d \<noteq> ch CHR '']''" by (auto split: if_splits)
      with a s arr d have "parse_elements n (d # ds) = Exhausted" by auto
      moreover have "2 * length (d # ds) + 1 < n" using l1 l2 n by simp
      ultimately show False using "2.IH"(2)[OF s arr d nr] by blast
    next
      case strg
      with a s show False by (auto split: option.splits)
    next
      case num
      with a s show False by (auto simp: parse_number_not_Exhausted)
    next
      case lit
      with a s show False by (auto simp: parse_literal_not_Exhausted)
    qed
  qed
next
  case (3 s)
  then show ?case by simp
next
  case (4 n s)
  show ?case
  proof (intro impI notI)
    assume n: "2 * length s + 1 < Suc n" and a: "parse_elements (Suc n) s = Exhausted"
    from n "4.IH"(1) have ne: "parse_value n s \<noteq> Exhausted" by simp
    with a obtain v rest where v: "parse_value n s = Parsed v rest"
      by (cases "parse_value n s") auto
    from parse_length(1)[of n s] v have l1: "length rest \<le> length s" by blast
    from a v obtain c cs where c: "skip_ws rest = c # cs"
      by (cases "skip_ws rest") auto
    note l2 = skip_ws_Cons_length[OF c]
    from a v c have cc: "c = ch CHR '',''" by (auto split: if_splits)
    with a v c have "parse_elements n cs = Exhausted" by auto
    moreover have "2 * length cs + 1 < n" using l1 l2 n by simp
    ultimately show False using "4.IH"(2)[OF v c cc] by blast
  qed
next
  case (5 s)
  then show ?case by simp
next
  case (6 n s)
  show ?case
  proof (intro impI notI)
    assume n: "2 * length s + 1 < Suc n" and a: "parse_members (Suc n) s = Exhausted"
    then obtain q qs where q: "skip_ws s = q # qs"
      by (cases "skip_ws s") auto
    note l1 = skip_ws_Cons_length[OF q]
    from a q have qq: "\<not> q \<noteq> ch CHR ''\"''" by (auto split: if_splits)
    from a q qq obtain k rest where k: "parse_string qs = Some (k, rest)"
      by (cases "parse_string qs") auto
    note l2 = parse_string_length[OF k]
    from a q qq k obtain d ds where d: "skip_ws rest = d # ds"
      by (cases "skip_ws rest") auto
    note l3 = skip_ws_Cons_length[OF d]
    from a q qq k d have dd: "\<not> d \<noteq> ch CHR '':''" by (auto split: if_splits)
    have "2 * length ds < n" using l1 l2 l3 n by simp
    with "6.IH"(1)[OF q qq k refl d dd] have ne: "parse_value n ds \<noteq> Exhausted" by simp
    with a q qq k d dd obtain v rest' where v: "parse_value n ds = Parsed v rest'"
      by (cases "parse_value n ds") auto
    from parse_length(1)[of n ds] v have l4: "length rest' \<le> length ds" by blast
    from a q qq k d dd v obtain c cs where c: "skip_ws rest' = c # cs"
      by (cases "skip_ws rest'") auto
    note l5 = skip_ws_Cons_length[OF c]
    from a q qq k d dd v c have cc: "c = ch CHR '',''" by (auto split: if_splits)
    with a q qq k d dd v c have "parse_members n cs = Exhausted" by auto
    moreover have "2 * length cs + 1 < n" using l1 l2 l3 l4 l5 n by simp
    ultimately show False using "6.IH"(2)[OF q qq k refl d dd v c cc] by blast
  qed
qed

lemma JSON_parse_not_RangeError: "JSON_parse s \<noteq> Inl RangeError"
  using parse_fuel(1)[of s "2 * length s + 1"]
  by (auto simp: JSON_parse_def split: parse.splits)

lemma JSON_parse_Inl: "JSON_parse s = Inl e \<Longrightarrow> e = SyntaxError"
  using JSON_parse_not_RangeError[of s]
  by (auto simp: JSON_parse_def split: parse.splits if_splits)


section \<open>The paths through the handler\<close>

lemma reply_text_chat_completion: "reply_text (chat_completion t) = Inr (JString t)"
  by (simp add: reply_text_def chat_completion_def)

lemma handler_ok_reply:
  assumes "apiKey \<noteq> None" "apiKey \<noteq> Some []" "to_boolean img" "response_ok st"
    and "reply_text data = Inr txt"
  shows "handler serializes apiKey img (Response st (Inr data)) =
           (case normalize_reply serializes txt of Inl e \<Rightarrow> catch_block e | Inr r \<Rightarrow> r)"
  using assms by (auto simp: handler_def try_block_def)

lemma parse_and_coerce_status:
  "parse_and_coerce serializes m = Inr r \<Longrightarrow> status r = 200"
  by (auto simp: parse_and_coerce_def split: sum.splits if_splits)

lemma normalize_reply_status:
  "normalize_reply serializes t = Inr r \<Longrightarrow> status r = 200 \<or> status r = 502"
  by (cases t) (auto simp: normalize_reply_def parse_failure_def dest: parse_and_coerce_status split: option.splits)

lemma try_block_status:
  "try_block serializes up = Inr r \<Longrightarrow> status r = 200 \<or> status r = 502"
proof (cases up)
  case (FetchRejects e)
  then show "try_block serializes up = Inr r \<Longrightarrow> ?thesis" by (simp add: try_block_def)
next
  case (Response st js)
  assume "try_block serializes up = Inr r"
  then show ?thesis using Response
    by (cases js; cases "response_ok st")
      (auto simp: try_block_def dest: normalize_reply_status split: sum.splits if_splits)
qed

lemma handler_no_key:
  "apiKey = None \<or> apiKey = Some [] \<Longrightarrow>
     handler serializes apiKey img up =
       \<lparr>status = 500,
        body = ErrorBody (Value (JString (str ''Server misconfiguration: missing API key'')))\<rparr>"
  unfolding handler_def by (simp only: if_True)

lemma handler_no_image:
  "apiKey \<noteq> None \<Longrightarrow> apiKey \<noteq> Some [] \<Longrightarrow> \<not> to_boolean img \<Longrightarrow>
     handler serializes apiKey img up =
       \<lparr>status = 400,
        body = ErrorBody (Value (JString (str ''Missing 'image' field (expected a data URL)'')))\<rparr>"
  unfolding handler_def by simp

lemma handler_try:
  "apiKey \<noteq> None \<Longrightarrow> apiKey \<noteq> Some [] \<Longrightarrow> to_boolean img \<Longrightarrow>
     handler serializes apiKey img up = (case try_block serializes up of Inl e \<Rightarrow> catch_block e | Inr r \<Rightarrow> r)"
  unfolding handler_def by auto

lemma status_try_catch:
  "status (case try_block serializes up of Inl e \<Rightarrow> catch_block e | Inr r \<Rightarrow> r) \<noteq> 400"
proof (cases "try_block serializes up")
  case (Inl e)
  then show ?thesis by (simp add: catch_block_def)
next
  case (Inr r)
  then show ?thesis using try_block_status[OF Inr] by auto
qed


text \<open>
  C10. The credential is checked before the request body: without an API key (the variable
  unset or empty) the response is 500 with the misconfiguration message, whatever the request
  body holds and whatever the upstream would do; status 400 is answered exactly when the key
  is present and the \<^verbatim>\<open>image\<close> member is missing or falsy.
\<close>

theorem api_key_checked_first:
  "(apiKey = None \<or> apiKey = Some [] \<longrightarrow>
      handler serializes apiKey img up =
        \<lparr>status = 500,
         body = ErrorBody (Value (JString (str ''Server misconfiguration: missing API key'')))\<rparr>) \<and>
   (status (handler serializes apiKey img up) = 400 \<longleftrightarrow>
      apiKey \<noteq> None \<and> apiKey \<noteq> Some [] \<and> \<not> to_boolean img)"
proof (intro conjI impI)
  assume "apiKey = None \<or> apiKey = Some []"
  then show "handler serializes apiKey img up =
        \<lparr>status = 500,
         body = ErrorBody (Value (JString (str ''Server misconfiguration: missing API key'')))\<rparr>"
    by (rule handler_no_key)
next
  show "status (handler serializes apiKey img up) = 400 \<longleftrightarrow>
      apiKey \<noteq> None \<and> apiKey \<noteq> Some [] \<and> \<not> to_boolean img"
  proof (cases "apiKey = None \<or> apiKey = Some []")
    case True
    then show ?thesis using handler_no_key[OF True, of serializes img up] by auto
  next
    case False
    then have k: "apiKey \<noteq> None" "apiKey \<noteq> Some []" by auto
    show ?thesis
    proof (cases "to_boolean img")
      case True
      then show ?thesis
        using handler_try[OF k True, of serializes up] status_try_catch[of serializes up] by simp
    next
      case False
      then show ?thesis
        using handler_no_image[OF k False, of serializes up] k by simp
    qed
  qed
qed

theorem api_key_checked_first_witness:
  "handler (stack_depth 1000) None None (FetchRejects NonError) =
     \<lparr>status = 500,
      body = ErrorBody (Value (JString (str ''Server misconfiguration: missing API key'')))\<rparr> \<and>
   status (handler (stack_depth 1000) (Some (str ''sk-or-1'')) None (FetchRejects NonError)) = 400"
proof -
  have "Some (str ''sk-or-1'') \<noteq> None \<and> Some (str ''sk-or-1'') \<noteq> Some [] \<and> \<not> to_boolean None"
    by (simp add: str_def)
  then show ?thesis
    using api_key_checked_first [of None "stack_depth 1000" None "FetchRejects NonError"]
      api_key_checked_first [of "Some (str ''sk-or-1'')" "stack_depth 1000" None
        "FetchRejects NonError"]
    by simp
qed

text \<open>
  C3. When the reply text holds no opening brace with a closing brace after it (the empty
  text included), a request that reaches the upstream and gets a successful reply is
  answered with 502 and the fixed parse-failure message.
\<close>

theorem no_brace_region_is_502:
  assumes "apiKey \<noteq> None" and "apiKey \<noteq> Some []" and "to_boolean img"
    and "response_ok st" and "reply_text data = Inr (JString text)"
    and "\<not> (\<exists>i j. i < j \<and> j < length text \<and> text ! i = lbrace \<and> text ! j = rbrace)"
  shows "handler serializes apiKey img (Response st (Inr data)) =
           \<lparr>status = 502,
            body = ErrorBody (Value (JString (str ''Could not parse response from Claude.'')))\<rparr>"
proof -
  have "brace_span text = None"
    using assms(6) by (simp add: brace_span_None_iff)
  then have "normalize_reply serializes (JString text) = Inr parse_failure"
    by (simp add: normalize_reply_def regexp_exec_brace_span)
  then show ?thesis
    using handler_ok_reply[OF assms(1-5)] by (simp add: parse_failure_def)
qed

theorem no_brace_region_is_502_witness:
  "handler (stack_depth 1000) (Some (str ''sk-or-1''))
       (Some (JString (str ''data:image/png;base64,AAAA'')))
     (Response 200 (Inr (chat_completion []))) =
   \<lparr>status = 502,
    body = ErrorBody (Value (JString (str ''Could not parse response from Claude.'')))\<rparr>"
proof -
  have "Some (str ''sk-or-1'') \<noteq> None" "Some (str ''sk-or-1'') \<noteq> Some []"
    by (simp_all add: str_def)
  moreover have "to_boolean (Some (JString (str ''data:image/png;base64,AAAA'')))"
    by (simp add: str_def)
  moreover have "response_ok 200"
    by (simp add: response_ok_def)
  moreover have "reply_text (chat_completion []) = Inr (JString [])"
    by (rule reply_text_chat_completion)
  moreover have "\<not> (\<exists>i j. i < j \<and> j < length ([]::jsstring) \<and> [] ! i = lbrace \<and> [] ! j = rbrace)"
    by simp
  ultimately show ?thesis
    by (rule no_brace_region_is_502)
qed

text \<open>
  C8. When a brace-delimited region is found and \<^verbatim>\<open>JSON.parse\<close> rejects it, the
  SyntaxError reaches the \<^verbatim>\<open>catch\<close>: the response is 500 and carries the message of
  that error, so it is neither 502 nor a success body.
\<close>

theorem invalid_json_is_500:
  assumes "apiKey \<noteq> None" and "apiKey \<noteq> Some []" and "to_boolean img"
    and "response_ok st" and "reply_text data = Inr (JString text)"
    and "regexp_exec text = Some m" and "JSON_parse m = Inl e"
  shows "handler serializes apiKey img (Response st (Inr data)) =
           \<lparr>status = 500, body = ErrorBody (MessageOf SyntaxError)\<rparr>"
proof -
  have e: "e = SyntaxError"
    using assms(7) by (rule JSON_parse_Inl)
  then have "catch_block e = \<lparr>status = 500, body = ErrorBody (MessageOf SyntaxError)\<rparr>"
    by (simp add: catch_block_def)
  moreover have "normalize_reply serializes (JString text) = Inl e"
    using assms(6,7) by (simp add: normalize_reply_def parse_and_coerce_def)
  ultimately show ?thesis
    using handler_ok_reply[OF assms(1-5)] by simp
qed

theorem invalid_json_is_500_witness:
  "handler (stack_depth 1000) (Some (str ''sk-or-1''))
       (Some (JString (str ''data:image/png;base64,AAAA'')))
     (Response 200 (Inr (chat_completion (str ''{\"results\":[]} or {\"results\":[]}'')))) =
   \<lparr>status = 500, body = ErrorBody (MessageOf SyntaxError)\<rparr>"
proof -
  have "Some (str ''sk-or-1'') \<noteq> None" "Some (str ''sk-or-1'') \<noteq> Some []"
    by (simp_all add: str_def)
  moreover have "to_boolean (Some (JString (str ''data:image/png;base64,AAAA'')))"
    by (simp add: str_def)
  moreover have "response_ok 200"
    by (simp add: response_ok_def)
  moreover have "reply_text (chat_completion (str ''{\"results\":[]} or {\"results\":[]}'')) =
      Inr (JString (str ''{\"results\":[]} or {\"results\":[]}''))"
    by (rule reply_text_chat_completion)
  moreover have "regexp_exec (str ''{\"results\":[]} or {\"results\":[]}'') =
      Some (str ''{\"results\":[]} or {\"results\":[]}'')"
    by code_simp
  moreover have "JSON_parse (str ''{\"results\":[]} or {\"results\":[]}'') = Inl SyntaxError"
    by code_simp
  ultimately show ?thesis
    by (rule invalid_json_is_500)
qed

section \<open>What a run leaves behind does not reach the next run\<close>








section \<open>Coercion of the results\<close>

lemma coerce_JNull: "coerce JNull = Inl TypeError"
  by (simp add: coerce_def)

lemma get_prop_not_null: "r \<noteq> JNull \<Longrightarrow> \<exists>x. get_prop r k = Inr x"
  by (cases r) auto

lemma coerce_not_null:
  assumes "r \<noteq> JNull"
  shows "\<exists>t v u. get_prop r (str ''type'') = Inr t \<and> get_prop r (str ''value'') = Inr v \<and>
           get_prop r (str ''uncertain'') = Inr u \<and>
           coerce r = Inr \<lparr>type = (if t = Some (JString (str ''vin'')) then vin else reg),
                           value = nullish v (JString []),
                           uncertain = to_boolean u\<rparr>"
proof -
  from get_prop_not_null[OF assms] obtain t v u where
    "get_prop r (str ''type'') = Inr t" "get_prop r (str ''value'') = Inr v"
    "get_prop r (str ''uncertain'') = Inr u"
    by metis
  then show ?thesis by (simp add: coerce_def)
qed



text \<open>Lists of three and of four elements, by their positions.\<close>

lemma list3_nth: "length xs = 3 \<Longrightarrow> xs = [xs ! 0, xs ! 1, xs ! 2]"
  by (auto simp: numeral_eq_Suc length_Suc_conv)

lemma list4_nth: "length xs = 4 \<Longrightarrow> xs = [xs ! 0, xs ! 1, xs ! 2, xs ! 3]"
  by (auto simp: numeral_eq_Suc length_Suc_conv)

text \<open>
  The failure of \<^verbatim>\<open>res.json\<close> is a path of the handler: on an engine that serialises four
  levels, a value two levels deep in a record is one level too many, and the answer is 500.
\<close>

lemma deep_value_is_500:
  "handler (stack_depth 4) (Some (str ''sk-or-1'')) (Some (JString (str ''data:image/png;base64,AAAA'')))
     (Response 200 (Inr (chat_completion (str ''{\"results\":[{\"value\":[[]]}]}'')))) =
   \<lparr>status = 500, body = ErrorBody (MessageOf RangeError)\<rparr>"
  by code_simp

lemma map_exn_coerce_null: "JNull \<in> set rs \<Longrightarrow> map_exn coerce rs = Inl TypeError"
proof (induction rs)
  case Nil
  then show ?case by simp
next
  case (Cons r rs)
  show ?case
  proof (cases "r = JNull")
    case True
    then show ?thesis by (simp add: coerce_JNull)
  next
    case False
    with coerce_not_null[OF False] Cons show ?thesis by auto
  qed
qed

lemma null_element_throws:
  assumes "regexp_exec text = Some m" and "JSON_parse m = Inr parsed"
    and "get_prop parsed (str ''results'') = Inr (Some (JArray rs))"
    and "JNull \<in> set rs"
  shows "normalize_reply serializes (JString text) = Inl TypeError"
  using assms map_exn_coerce_null[OF assms(4)]
  by (simp add: normalize_reply_def parse_and_coerce_def)

lemma regexp_exec_skip_prefix:
  "lbrace \<notin> set pre \<Longrightarrow> regexp_exec (pre @ s) = regexp_exec s"
  by (induction pre) auto

lemma last_index_append_close:
  assumes "rbrace \<notin> set post"
  shows "last_index rbrace (mid @ rbrace # post) = Some (length mid)"
proof (rule last_index_unique)
  show "length mid < length (mid @ rbrace # post)" by simp
  show "(mid @ rbrace # post) ! length mid = rbrace" by simp
  show "\<forall>k. length mid < k \<and> k < length (mid @ rbrace # post) \<longrightarrow>
          (mid @ rbrace # post) ! k \<noteq> rbrace"
  proof (intro allI impI)
    fix k
    assume k: "length mid < k \<and> k < length (mid @ rbrace # post)"
    then obtain d where d: "k = length mid + Suc d"
      by (metis less_imp_Suc_add add_Suc_right)
    then have "(mid @ rbrace # post) ! k = post ! d"
      by (simp add: nth_append)
    moreover have "d < length post" using k d by auto
    ultimately show "(mid @ rbrace # post) ! k \<noteq> rbrace"
      using assms by (metis nth_mem)
  qed
qed

lemma regexp_exec_embedded:
  assumes "lbrace \<notin> set pre" and "rbrace \<notin> set post"
  shows "regexp_exec (pre @ (lbrace # mid @ [rbrace]) @ post) = Some (lbrace # mid @ [rbrace])"
proof -
  have "regexp_exec (pre @ (lbrace # mid @ [rbrace]) @ post) =
          regexp_exec (lbrace # mid @ rbrace # post)"
    using regexp_exec_skip_prefix[OF assms(1)] by simp
  also have "\<dots> = Some (take (Suc (Suc (length mid))) (lbrace # mid @ rbrace # post))"
    by (simp add: star_close_eq last_index_append_close[OF assms(2)])
  also have "\<dots> = Some (lbrace # mid @ [rbrace])"
    by simp
  finally show ?thesis .
qed













text \<open>
  The matched text starts with an opening brace, so what \<^verbatim>\<open>JSON.parse\<close> returns for it
  is an object.
\<close>

lemma regexp_exec_starts: "regexp_exec t = Some m \<Longrightarrow> \<exists>cs. m = lbrace # cs"
  by (induction t) (auto split: option.splits if_splits)

lemma skip_ws_lbrace: "skip_ws (lbrace # cs) = lbrace # cs"
  by (simp add: skip_ws_def is_json_ws_def lbrace_def ch_def)

lemma JSON_parse_object:
  assumes "JSON_parse (lbrace # cs) = Inr p"
  shows "\<exists>kvs. p = JObject kvs"
proof -
  obtain n where n: "2 * length (lbrace # cs) + 1 = Suc n" by simp
  have "\<exists>kvs. v = JObject kvs" if "parse_value (Suc n) (lbrace # cs) = Parsed v r" for v r
    using that
    by (auto simp: skip_ws_lbrace map_parse_Parsed split: list.splits if_splits)
  then show ?thesis
    using assms unfolding JSON_parse_def n
    by (auto split: parse.splits if_splits)
qed

lemma matched_region_is_object:
  "regexp_exec t = Some m \<Longrightarrow> JSON_parse m = Inr p \<Longrightarrow> \<exists>kvs. p = JObject kvs"
  using regexp_exec_starts JSON_parse_object by blast

text \<open>
  C4, amended. What is parsed is an object, and when it has no member \<^verbatim>\<open>results\<close>, or
  has it with the value \<^verbatim>\<open>null\<close>, the results are the empty sequence and no error is
  signalled: the handler answers 200 with an empty list.
\<close>

theorem missing_results_is_empty:
  assumes "apiKey \<noteq> None" and "apiKey \<noteq> Some []" and "to_boolean img"
    and "response_ok st" and "reply_text data = Inr (JString text)"
    and "regexp_exec text = Some m" and "JSON_parse m = Inr parsed"
    and "get_prop parsed (str ''results'') = Inr None \<or>
         get_prop parsed (str ''results'') = Inr (Some JNull)"
  shows "(\<exists>members. parsed = JObject members) \<and>
         handler serializes apiKey img (Response st (Inr data)) = \<lparr>status = 200, body = Results []\<rparr>"
proof
  show "\<exists>members. parsed = JObject members"
    using assms(6,7) by (rule matched_region_is_object)
  have "\<not> stringify_throws serializes (results_json [])"
    by (simp add: stringify_throws_def results_json_def)
  then have "normalize_reply serializes (JString text) = Inr \<lparr>status = 200, body = Results []\<rparr>"
    using assms(6-8) by (auto simp: normalize_reply_def parse_and_coerce_def)
  then show "handler serializes apiKey img (Response st (Inr data)) = \<lparr>status = 200, body = Results []\<rparr>"
    using handler_ok_reply[OF assms(1-5)] by simp
qed

theorem missing_results_is_empty_witness:
  "handler (stack_depth 1000) (Some (str ''sk-or-1''))
       (Some (JString (str ''data:image/png;base64,AAAA'')))
     (Response 200 (Inr (chat_completion (str ''{\"note\":\"no plates found\"}'')))) =
     \<lparr>status = 200, body = Results []\<rparr>"
proof -
  have "Some (str ''sk-or-1'') \<noteq> None" "Some (str ''sk-or-1'') \<noteq> Some []"
    by (simp_all add: str_def)
  moreover have "to_boolean (Some (JString (str ''data:image/png;base64,AAAA'')))"
    by (simp add: str_def)
  moreover have "response_ok 200"
    by (simp add: response_ok_def)
  moreover have "reply_text (chat_completion (str ''{\"note\":\"no plates found\"}'')) =
      Inr (JString (str ''{\"note\":\"no plates found\"}''))"
    by (rule reply_text_chat_completion)
  moreover have "regexp_exec (str ''{\"note\":\"no plates found\"}'') =
      Some (str ''{\"note\":\"no plates found\"}'')"
    by code_simp
  moreover have "JSON_parse (str ''{\"note\":\"no plates found\"}'') =
      Inr (JObject [(str ''note'', JString (str ''no plates found''))])"
    by code_simp
  moreover have "get_prop (JObject [(str ''note'', JString (str ''no plates found''))]) (str ''results'') = Inr None \<or>
      get_prop (JObject [(str ''note'', JString (str ''no plates found''))]) (str ''results'') = Inr (Some JNull)"
    by code_simp
  ultimately show ?thesis
    using missing_results_is_empty by blast
qed

text \<open>
  As first stated, with any value that is not a sequence, the property fails: a string has no
  \<^verbatim>\<open>map\<close> method, the call throws a TypeError and the response is 500.
\<close>

theorem results_not_an_array_is_500:
  "JSON_parse (str ''{\"results\":\"none\"}'') =
     Inr (JObject [(str ''results'', JString (str ''none''))]) \<and>
   handler (stack_depth 1000) (Some (str ''sk-or-1''))
       (Some (JString (str ''data:image/png;base64,AAAA'')))
     (Response 200 (Inr (chat_completion (str ''{\"results\":\"none\"}'')))) =
     \<lparr>status = 500, body = ErrorBody (MessageOf TypeError)\<rparr>"
proof (intro conjI)
  show "JSON_parse (str ''{\"results\":\"none\"}'') =
     Inr (JObject [(str ''results'', JString (str ''none''))])"
    by code_simp
  show "handler (stack_depth 1000) (Some (str ''sk-or-1''))
       (Some (JString (str ''data:image/png;base64,AAAA'')))
     (Response 200 (Inr (chat_completion (str ''{\"results\":\"none\"}'')))) =
     \<lparr>status = 500, body = ErrorBody (MessageOf TypeError)\<rparr>"
    by code_simp
qed


section \<open>A record between prose\<close>

lemma str_vin_neq_reg: "str ''vin'' \<noteq> str ''reg''"
  by (simp add: str_def ch_def)

text \<open>
  C5, amended. When the prose before the object holds no opening brace and the prose after it
  holds no closing brace, the record of a well-formed one-record object comes out unchanged:
  its kind, its string value and its boolean flag are those of the reply.
\<close>

theorem record_extracted_from_prose:
  assumes "lbrace \<notin> set pre" and "rbrace \<notin> set post"
    and "JSON_parse (lbrace # mid @ [rbrace]) = Inr parsed"
    and "get_prop parsed (str ''results'') = Inr (Some (JArray [r]))"
    and "get_prop r (str ''type'') =
           Inr (Some (JString (if k = vin then str ''vin'' else str ''reg'')))"
    and "get_prop r (str ''value'') = Inr (Some (JString v))"
    and "get_prop r (str ''uncertain'') = Inr (Some (JBool u))"
  shows "normalize_reply serializes (JString (pre @ (lbrace # mid @ [rbrace]) @ post)) =
           Inr \<lparr>status = 200,
                body = Results [\<lparr>type = k, value = JString v, uncertain = u\<rparr>]\<rparr>"
proof -
  have "coerce r = Inr \<lparr>type = k, value = JString v, uncertain = u\<rparr>"
    using assms(5-7) str_vin_neq_reg by (cases k) (auto simp: coerce_def)
  moreover have "\<not> stringify_throws serializes
                   (results_json [\<lparr>type = k, value = JString v, uncertain = u\<rparr>])"
    by (simp add: stringify_throws_def results_json_def result_json_def)
  ultimately show ?thesis
    using regexp_exec_embedded[OF assms(1,2), of mid] assms(3,4)
    by (simp add: normalize_reply_def parse_and_coerce_def)
qed

theorem record_extracted_from_prose_witness:
  "normalize_reply (stack_depth 1000) (JString (str ''Here is the result: '' @
       (lbrace # str ''\"results\":[{\"type\":\"reg\",\"value\":\"AB12 CDE\",\"uncertain\":false}]'' @ [rbrace]) @ str '' Hope this helps.'')) =
     Inr \<lparr>status = 200,
          body = Results [\<lparr>type = reg, value = JString (str ''AB12 CDE''), uncertain = False\<rparr>]\<rparr>"
proof -
  have 1: "lbrace \<notin> set (str ''Here is the result: '')"
    by code_simp
  have 2: "rbrace \<notin> set (str '' Hope this helps.'')"
    by code_simp
  have 3: "JSON_parse (lbrace # str ''\"results\":[{\"type\":\"reg\",\"value\":\"AB12 CDE\",\"uncertain\":false}]'' @ [rbrace]) =
      Inr (JObject [(str ''results'', JArray [JObject [(str ''type'', JString (str ''reg'')),
                  (str ''value'', JString (str ''AB12 CDE'')),
                  (str ''uncertain'', JBool False)]])])"
    by code_simp
  have 4: "get_prop (JObject [(str ''results'', JArray [JObject [(str ''type'', JString (str ''reg'')),
                  (str ''value'', JString (str ''AB12 CDE'')),
                  (str ''uncertain'', JBool False)]])]) (str ''results'') =
      Inr (Some (JArray [JObject [(str ''type'', JString (str ''reg'')),
                  (str ''value'', JString (str ''AB12 CDE'')),
                  (str ''uncertain'', JBool False)]]))"
    by simp
  have 5: "get_prop (JObject [(str ''type'', JString (str ''reg'')),
                  (str ''value'', JString (str ''AB12 CDE'')),
                  (str ''uncertain'', JBool False)]) (str ''type'') =
      Inr (Some (JString (if reg = vin then str ''vin'' else str ''reg'')))"
    by code_simp
  have 6: "get_prop (JObject [(str ''type'', JString (str ''reg'')),
                  (str ''value'', JString (str ''AB12 CDE'')),
                  (str ''uncertain'', JBool False)]) (str ''value'') = Inr (Some (JString (str ''AB12 CDE'')))"
    by code_simp
  have 7: "get_prop (JObject [(str ''type'', JString (str ''reg'')),
                  (str ''value'', JString (str ''AB12 CDE'')),
                  (str ''uncertain'', JBool False)]) (str ''uncertain'') = Inr (Some (JBool False))"
    by code_simp
  show ?thesis
    by (rule record_extracted_from_prose[OF 1 2 3 4 5 6 7])
qed

text \<open>
  As first stated, with arbitrary prose, the property fails: the object alone gives its record,
  but a brace pair in the prose before it, or after it, widens the match to a text that is not
  JSON, and the parse throws.
\<close>

theorem prose_with_a_brace_breaks_extraction:
  "normalize_reply (stack_depth 1000) (JString (str ''{\"results\":[{\"type\":\"reg\",\"value\":\"AB12 CDE\",\"uncertain\":false}]}'')) =
     Inr \<lparr>status = 200,
          body = Results [\<lparr>type = reg, value = JString (str ''AB12 CDE''), uncertain = False\<rparr>]\<rparr> \<and>
   normalize_reply (stack_depth 1000) (JString (str ''Plates {UK}: {\"results\":[{\"type\":\"reg\",\"value\":\"AB12 CDE\",\"uncertain\":false}]}'')) = Inl SyntaxError \<and>
   normalize_reply (stack_depth 1000) (JString (str ''{\"results\":[{\"type\":\"reg\",\"value\":\"AB12 CDE\",\"uncertain\":false}]} (see {notes})'')) = Inl SyntaxError"
proof (intro conjI)
  show "normalize_reply (stack_depth 1000) (JString (str ''{\"results\":[{\"type\":\"reg\",\"value\":\"AB12 CDE\",\"uncertain\":false}]}'')) =
     Inr \<lparr>status = 200,
          body = Results [\<lparr>type = reg, value = JString (str ''AB12 CDE''), uncertain = False\<rparr>]\<rparr>"
    by code_simp
  show "normalize_reply (stack_depth 1000) (JString (str ''Plates {UK}: {\"results\":[{\"type\":\"reg\",\"value\":\"AB12 CDE\",\"uncertain\":false}]}'')) = Inl SyntaxError"
    by code_simp
  show "normalize_reply (stack_depth 1000) (JString (str ''{\"results\":[{\"type\":\"reg\",\"value\":\"AB12 CDE\",\"uncertain\":false}]} (see {notes})'')) = Inl SyntaxError"
    by code_simp
qed


end
